theory Spec2Isabelle
  imports Complex_Main
begin

section \<open>JavaScript values\<close>

text \<open>
  The dashboard's views (Treatment, Factors, Performance) transform rows fetched as JSON.
  A JavaScript number is modelled as an exact real, or one of the three non-finite values.
  Rounding to 64 bits, overflow of finite arithmetic to an infinity and the sign of zero
  are not modelled: \<open>Fin 0\<close> stands for both zeros, and it divides like \<open>+0\<close>.
\<close>

datatype jsnum = Fin real | PInf | NInf | NaN

text \<open>The cell values a JSON row can hold, and \<open>undefined\<close> for a missing property.\<close>

datatype jsval = Undefined | Null | Boolean bool | Str string | Num jsnum

text \<open>A row is an object: its own properties in key order.\<close>

type_synonym row = "(string \<times> jsval) list"

definition Object_keys :: "row \<Rightarrow> string list" where
  "Object_keys r = map fst r"

definition getProp :: "row \<Rightarrow> string \<Rightarrow> jsval" where
  \<comment> \<open>r[k]\<close>
  "getProp r k = (case map_of r k of None \<Rightarrow> Undefined | Some v \<Rightarrow> v)"

text \<open>
  Functions of the host that depend on data outside the repository: the shortest decimal
  form of a finite number (\<open>Number::toString\<close>), the locale's collation
  (\<open>String.prototype.localeCompare\<close>) and its upper-casing.
\<close>

record host =
  numberToString :: "real \<Rightarrow> string"
  localeCompare :: "string \<Rightarrow> string \<Rightarrow> int"
  toUpperCase :: "string \<Rightarrow> string"

subsection \<open>Arithmetic\<close>

fun isNaN :: "jsnum \<Rightarrow> bool" where
  "isNaN NaN = True"
| "isNaN _ = False"

fun isFinite :: "jsnum \<Rightarrow> bool" where
  "isFinite (Fin _) = True"
| "isFinite _ = False"

fun the_fin :: "jsnum \<Rightarrow> real" where
  "the_fin (Fin a) = a"
| "the_fin _ = 0"

fun js_sgn :: "jsnum \<Rightarrow> int" where
  "js_sgn (Fin a) = (if a < 0 then - 1 else if a = 0 then 0 else 1)"
| "js_sgn PInf = 1"
| "js_sgn NInf = - 1"
| "js_sgn NaN = 0"

definition inf_of_sign :: "int \<Rightarrow> jsnum" where
  "inf_of_sign s = (if 0 < s then PInf else if s < 0 then NInf else NaN)"

fun js_neg :: "jsnum \<Rightarrow> jsnum" where
  "js_neg (Fin a) = Fin (- a)"
| "js_neg PInf = NInf"
| "js_neg NInf = PInf"
| "js_neg NaN = NaN"

fun js_add :: "jsnum \<Rightarrow> jsnum \<Rightarrow> jsnum" where
  "js_add NaN _ = NaN"
| "js_add _ NaN = NaN"
| "js_add (Fin a) (Fin b) = Fin (a + b)"
| "js_add (Fin a) b = b"
| "js_add a (Fin b) = a"
| "js_add PInf PInf = PInf"
| "js_add NInf NInf = NInf"
| "js_add PInf NInf = NaN"
| "js_add NInf PInf = NaN"

definition js_sub :: "jsnum \<Rightarrow> jsnum \<Rightarrow> jsnum" where
  "js_sub a b = js_add a (js_neg b)"

fun js_mul :: "jsnum \<Rightarrow> jsnum \<Rightarrow> jsnum" where
  "js_mul NaN _ = NaN"
| "js_mul _ NaN = NaN"
| "js_mul (Fin a) (Fin b) = Fin (a * b)"
| "js_mul a b = inf_of_sign (js_sgn a * js_sgn b)"

fun js_div :: "jsnum \<Rightarrow> jsnum \<Rightarrow> jsnum" where
  "js_div NaN _ = NaN"
| "js_div _ NaN = NaN"
| "js_div (Fin a) (Fin b) = (if b = 0 then inf_of_sign (js_sgn (Fin a)) else Fin (a / b))"
| "js_div (Fin a) b = Fin 0"
| "js_div a (Fin b) = inf_of_sign (js_sgn a * (if b < 0 then - 1 else 1))"
| "js_div a b = NaN"


fun num_truthy :: "jsnum \<Rightarrow> bool" where
  \<comment> \<open>a number is falsy when it is zero or NaN\<close>
  "num_truthy (Fin a) = (a \<noteq> 0)"
| "num_truthy NaN = False"
| "num_truthy _ = True"

fun js_gt :: "jsnum \<Rightarrow> jsnum \<Rightarrow> bool" where
  \<comment> \<open>a > b on numbers\<close>
  "js_gt NaN _ = False"
| "js_gt _ NaN = False"
| "js_gt (Fin a) (Fin b) = (b < a)"
| "js_gt PInf b = (b \<noteq> PInf)"
| "js_gt a NInf = (a \<noteq> NInf)"
| "js_gt _ _ = False"

definition js_lt :: "jsnum \<Rightarrow> jsnum \<Rightarrow> bool" where
  "js_lt a b = js_gt b a"

subsection \<open>Conversion of a value to a number: \<open>Number(v)\<close>\<close>

text \<open>
  The grammar of numeric strings of ECMAScript, on strings of 8-bit characters: white space
  around the literal is dropped, the empty text is 0, a decimal literal may carry a sign, a
  fraction and an exponent, \<open>Infinity\<close> may carry a sign, and the prefixes
  \<open>0x\<close>, \<open>0o\<close>, \<open>0b\<close> introduce unsigned integers. Anything else is NaN.
  A decimal literal denotes its exact value, also beyond the range of the 64-bit format.
\<close>

definition is_ws :: "char \<Rightarrow> bool" where
  \<comment> \<open>tab, line feed, vertical tab, form feed, carriage return, space, no-break space\<close>
  "is_ws ch = (ch \<in> set [CHR 0x09, CHR 0x0A, CHR 0x0B, CHR 0x0C, CHR 0x0D, CHR 0x20, CHR 0xA0])"

definition trim :: "string \<Rightarrow> string" where
  "trim s = rev (dropWhile is_ws (rev (dropWhile is_ws s)))"

definition digit_in :: "string \<Rightarrow> char \<Rightarrow> nat" where
  \<comment> \<open>the position of a character in an alphabet of digits\<close>
  "digit_in alphabet ch = length (takeWhile (\<lambda>d. d \<noteq> ch) alphabet)"

definition digits_val :: "nat \<Rightarrow> string \<Rightarrow> string \<Rightarrow> nat" where
  "digits_val base alphabet ds = foldl (\<lambda>a ch. base * a + digit_in alphabet ch) 0 ds"

definition is_digit :: "char \<Rightarrow> bool" where
  "is_digit ch = (ch \<in> set ''0123456789'')"

definition all_digits :: "string \<Rightarrow> bool" where
  "all_digits ds = (ds \<noteq> [] \<and> list_all is_digit ds)"

definition scale10 :: "real \<Rightarrow> int \<Rightarrow> real" where
  "scale10 m e = (if 0 \<le> e then m * 10 ^ nat e else m / 10 ^ nat (- e))"

fun ExponentPart :: "string \<Rightarrow> int option" where
  "ExponentPart [] = Some 0"
| "ExponentPart (ch # cs) =
     (if ch = CHR ''e'' \<or> ch = CHR ''E'' then
        (case cs of
           [] \<Rightarrow> None
         | s # ds \<Rightarrow>
             if s = CHR ''+'' then
               (if all_digits ds then Some (int (digits_val 10 ''0123456789'' ds)) else None)
             else if s = CHR ''-'' then
               (if all_digits ds then Some (- int (digits_val 10 ''0123456789'' ds)) else None)
             else
               (if all_digits cs then Some (int (digits_val 10 ''0123456789'' cs)) else None))
      else None)"

definition StrUnsignedDecimalLiteral :: "string \<Rightarrow> jsnum" where
  "StrUnsignedDecimalLiteral s =
     (if s = ''Infinity'' then PInf
      else
        let ip = takeWhile is_digit s;
            r1 = dropWhile is_digit s;
            fp = (case r1 of [] \<Rightarrow> [] | ch # cs \<Rightarrow> if ch = CHR ''.'' then takeWhile is_digit cs else []);
            r2 = (case r1 of [] \<Rightarrow> [] | ch # cs \<Rightarrow> if ch = CHR ''.'' then dropWhile is_digit cs else r1)
        in if ip = [] \<and> fp = [] then NaN
           else (case ExponentPart r2 of
                   None \<Rightarrow> NaN
                 | Some e \<Rightarrow>
                     Fin (scale10 (real (digits_val 10 ''0123456789'' (ip @ fp))) (e - int (length fp)))))"

definition lower_hex :: "char \<Rightarrow> char" where
  "lower_hex ch = (if ch \<in> set ''ABCDEF'' then ''abcdef'' ! digit_in ''ABCDEF'' ch else ch)"

definition NonDecimalIntegerLiteral :: "string \<Rightarrow> jsnum option" where
  \<comment> \<open>0x, 0o and 0b literals; None when the text has no such prefix\<close>
  "NonDecimalIntegerLiteral s =
     (case s of
        z # p # ds \<Rightarrow>
          if z \<noteq> CHR ''0'' then None
          else if p = CHR ''x'' \<or> p = CHR ''X'' then
            Some (if ds \<noteq> [] \<and> list_all (\<lambda>ch. lower_hex ch \<in> set ''0123456789abcdef'') ds
                  then Fin (real (digits_val 16 ''0123456789abcdef'' (map lower_hex ds))) else NaN)
          else if p = CHR ''o'' \<or> p = CHR ''O'' then
            Some (if ds \<noteq> [] \<and> list_all (\<lambda>ch. ch \<in> set ''01234567'') ds
                  then Fin (real (digits_val 8 ''01234567'' ds)) else NaN)
          else if p = CHR ''b'' \<or> p = CHR ''B'' then
            Some (if ds \<noteq> [] \<and> list_all (\<lambda>ch. ch \<in> set ''01'') ds
                  then Fin (real (digits_val 2 ''01'' ds)) else NaN)
          else None
      | _ \<Rightarrow> None)"

definition StringToNumber :: "string \<Rightarrow> jsnum" where
  "StringToNumber s =
     (let t = trim s in
      if t = [] then Fin 0
      else (case NonDecimalIntegerLiteral t of
              Some n \<Rightarrow> n
            | None \<Rightarrow>
                if hd t = CHR ''+'' then StrUnsignedDecimalLiteral (tl t)
                else if hd t = CHR ''-'' then js_neg (StrUnsignedDecimalLiteral (tl t))
                else StrUnsignedDecimalLiteral t))"

fun Number :: "jsval \<Rightarrow> jsnum" where
  "Number Undefined = NaN"
| "Number Null = Fin 0"
| "Number (Boolean b) = (if b then Fin 1 else Fin 0)"
| "Number (Str s) = StringToNumber s"
| "Number (Num n) = n"

subsection \<open>Conversion of a value to a string: \<open>String(v)\<close>\<close>

fun num_String :: "host \<Rightarrow> jsnum \<Rightarrow> string" where
  "num_String h (Fin a) = numberToString h a"
| "num_String h PInf = ''Infinity''"
| "num_String h NInf = ''-Infinity''"
| "num_String h NaN = ''NaN''"

fun String :: "host \<Rightarrow> jsval \<Rightarrow> string" where
  "String h Undefined = ''undefined''"
| "String h Null = ''null''"
| "String h (Boolean b) = (if b then ''true'' else ''false'')"
| "String h (Str s) = s"
| "String h (Num n) = num_String h n"

subsection \<open>Helpers shared by the views\<close>

definition toNum :: "jsval \<Rightarrow> jsnum" where
  "toNum v = (let n = Number v in if isNaN n then NaN else n)"

definition isFiniteNum :: "jsnum \<Rightarrow> bool" where
  \<comment> \<open>typeof n === "number" && isFinite(n), on a value that is a number\<close>
  "isFiniteNum n = isFinite n"

section \<open>Column classification\<close>

record columns =
  numericCols :: "string list"
  catCols :: "string list"

definition classify :: "row list \<Rightarrow> columns" where
  \<comment> \<open>the useMemo computing numericCols and catCols in Treatment\<close>
  "classify rows =
     (if rows = [] then \<lparr>numericCols = [], catCols = []\<rparr>
      else
        let keys = Object_keys (hd rows);
            numeric = filter (\<lambda>k. list_all (\<lambda>r. getProp r k = Str [] \<or> \<not> isNaN (Number (getProp r k))) rows) keys;
            categorical = filter (\<lambda>k. \<not> (k \<in> set numeric)) keys
        in \<lparr>numericCols = numeric, catCols = categorical\<rparr>)"

section \<open>Aggregation (Treatment)\<close>

text \<open>
  A bucket \<open>{name, value}\<close>; the field \<open>value\<close> is called \<open>val\<close> here. The
  limit \<open>topN\<close> is a natural number: the selector offers 5, 8, 12 and 0.
\<close>

record bucket =
  name :: string
  val :: jsnum

definition safeCat :: "host \<Rightarrow> jsval \<Rightarrow> string" where
  "safeCat h v = (if v = Null \<or> v = Undefined \<or> v = Str [] then ''Unknown'' else String h v)"

text \<open>A \<open>Map\<close> keeps its entries in insertion order; setting a present key keeps its place.\<close>

type_synonym 'v jsmap = "(string \<times> 'v) list"

definition Map_get :: "'v jsmap \<Rightarrow> string \<Rightarrow> 'v option" where
  "Map_get m k = map_of m k"

fun Map_set :: "'v jsmap \<Rightarrow> string \<Rightarrow> 'v \<Rightarrow> 'v jsmap" where
  "Map_set [] k v = [(k, v)]"
| "Map_set ((k', v') # m) k v = (if k' = k then (k, v) # m else (k', v') # Map_set m k v)"

definition or_zero :: "jsnum option \<Rightarrow> jsnum" where
  \<comment> \<open>m.get(key) || 0\<close>
  "or_zero g = (case g of None \<Rightarrow> Fin 0 | Some n \<Rightarrow> if num_truthy n then n else Fin 0)"

definition agg_step :: "host \<Rightarrow> string \<Rightarrow> string \<Rightarrow> jsnum jsmap \<Rightarrow> row \<Rightarrow> jsnum jsmap" where
  \<comment> \<open>the body of the loop over the rows in baseAgg\<close>
  "agg_step h cat metric m r =
     (let key = safeCat h (getProp r cat);
          addVal = (if metric = ''count'' then Fin 1 else toNum (getProp r metric));
          curr = or_zero (Map_get m key)
      in Map_set m key (js_add curr (if isFiniteNum addVal then addVal else Fin 0)))"

definition compareFn :: "host \<Rightarrow> string \<Rightarrow> bucket \<Rightarrow> bucket \<Rightarrow> jsnum" where
  "compareFn h sortBy a b =
     (if sortBy = ''name'' then Fin (of_int (localeCompare h (name a) (name b)))
      else js_sub (val b) (val a))"

text \<open>
  \<open>Array.prototype.sort\<close> is stable: an element moves behind another only when the
  comparator's result for the two is positive. The elements are inserted from the last to
  the first, each before the first element it does not have to follow.
\<close>

fun sort_insert :: "('a \<Rightarrow> 'a \<Rightarrow> jsnum) \<Rightarrow> 'a \<Rightarrow> 'a list \<Rightarrow> 'a list" where
  "sort_insert cmp a [] = [a]"
| "sort_insert cmp a (b # bs) =
     (if js_gt (cmp a b) (Fin 0) then b # sort_insert cmp a bs else a # b # bs)"

definition Array_sort :: "('a \<Rightarrow> 'a \<Rightarrow> jsnum) \<Rightarrow> 'a list \<Rightarrow> 'a list" where
  "Array_sort cmp xs = foldr (sort_insert cmp) xs []"

definition sum_value :: "bucket list \<Rightarrow> jsnum" where
  \<comment> \<open>reduce((a, b) => a + b.value, 0)\<close>
  "sum_value bs = foldl (\<lambda>a b. js_add a (val b)) (Fin 0) bs"

definition baseAgg :: "host \<Rightarrow> row list \<Rightarrow> string \<Rightarrow> string \<Rightarrow> string \<Rightarrow> nat \<Rightarrow> bucket list" where
  "baseAgg h rows cat metric sortBy topN =
     (if cat = [] then []
      else
        let m = foldl (agg_step h cat metric) [] rows;
            entries = map (\<lambda>(k, v). \<lparr>name = k, val = v\<rparr>) m;
            sorted_entries = Array_sort (compareFn h sortBy) entries
        in if 0 < topN \<and> topN < length sorted_entries then
             take topN sorted_entries
               @ [\<lparr>name = ''Other'', val = sum_value (drop topN sorted_entries)\<rparr>]
           else sorted_entries)"


section \<open>Scatter points and linear statistics (Factors)\<close>

text \<open>A point \<open>{x, y, z, c, raw}\<close>; the fields carry a prefix here.\<close>

record point =
  px :: jsnum
  py :: jsnum
  pz :: jsnum
  pc :: string
  praw :: row

definition safeStr :: "host \<Rightarrow> jsval \<Rightarrow> string" where
  "safeStr h v = (if v = Null \<or> v = Undefined then ''Unknown'' else String h v)"

definition basePoints :: "host \<Rightarrow> row list \<Rightarrow> string \<Rightarrow> string \<Rightarrow> string \<Rightarrow> string \<Rightarrow> point list" where
  "basePoints h rows x y z colorBy =
     (if \<not> (x \<noteq> [] \<and> y \<noteq> []) then []
      else
        filter (\<lambda>p. isFiniteNum (px p) \<and> isFiniteNum (py p))
          (map (\<lambda>r. \<lparr>px = toNum (getProp r x),
                     py = toNum (getProp r y),
                     pz = (if z \<noteq> []
                           then (let n = toNum (getProp r z) in if num_truthy n then n else Fin 1)
                           else Fin 1),
                     pc = (if colorBy \<noteq> [] then safeStr h (getProp r colorBy) else ''All''),
                     praw = r\<rparr>) rows))"

definition js_ge :: "jsnum \<Rightarrow> jsnum \<Rightarrow> bool" where
  "js_ge a b = (js_gt a b \<or> (a = b \<and> a \<noteq> NaN))"

definition filtered :: "point list \<Rightarrow> string \<Rightarrow> string \<Rightarrow> string \<Rightarrow> string \<Rightarrow> point list" where
  "filtered pts xMin xMax yMin yMax =
     (let xmin = Number (Str xMin); xmax = Number (Str xMax);
          ymin = Number (Str yMin); ymax = Number (Str yMax)
      in filter (\<lambda>p. (isNaN xmin \<or> js_ge (px p) xmin) \<and> (isNaN xmax \<or> js_ge xmax (px p))
                    \<and> (isNaN ymin \<or> js_ge (py p) ymin) \<and> (isNaN ymax \<or> js_ge ymax (py p))) pts)"














section \<open>Series transforms (Performance)\<close>

fun firstFinite :: "jsnum list \<Rightarrow> jsnum" where
  "firstFinite [] = NaN"
| "firstFinite (v # vs) = (if isFiniteNum v then v else firstFinite vs)"

definition finiteMin :: "jsnum list \<Rightarrow> jsnum" where
  "finiteMin arr = foldl (\<lambda>m v. if isFiniteNum v \<and> js_lt v m then v else m) PInf arr"

definition finiteMax :: "jsnum list \<Rightarrow> jsnum" where
  "finiteMax arr = foldl (\<lambda>m v. if isFiniteNum v \<and> js_gt v m then v else m) NInf arr"

text \<open>
  One turn of the loop of movingAvg, on the state \<open>(sum, q, out)\<close> (\<open>sum\<close> is called \<open>acc\<close> here): push, shift when the
  queue is longer than the window, and write \<open>out[i]\<close>.
\<close>

definition movingAvg_step ::
  "jsnum list \<Rightarrow> int \<Rightarrow> jsnum \<times> jsnum list \<times> jsnum list \<Rightarrow> nat \<Rightarrow> jsnum \<times> jsnum list \<times> jsnum list" where
  "movingAvg_step arr win st i =
     (case st of (acc, q, out) \<Rightarrow>
        let v = arr ! i;
            q1 = q @ [if isFiniteNum v then v else NaN];
            shifted = (win < int (length q1));
            sum1 = (if shifted \<and> isFiniteNum (hd q1) then js_sub acc (hd q1) else acc);
            q2 = (if shifted then tl q1 else q1);
            sum2 = (if isFiniteNum v then js_add sum1 v else sum1);
            valid = filter isFiniteNum q2
        in (sum2, q2,
            out[i := (if int (length valid) = win
                      then js_div (foldl js_add (Fin 0) valid) (Fin (of_int win))
                      else NaN)]))"

definition movingAvg :: "jsnum list \<Rightarrow> int \<Rightarrow> jsnum list" where
  "movingAvg arr win =
     (let out = replicate (length arr) NaN
      in if win \<le> 1 then arr
         else snd (snd (foldl (movingAvg_step arr win) (Fin 0, [], out) [0..<length arr])))"

text \<open>
  The quantities the moving average is stated with: the samples of the window that ends at
  index i (at most w of them, fewer near the start), and their mean when the window is
  full and all of it finite.
\<close>

definition trailing :: "jsnum list \<Rightarrow> nat \<Rightarrow> nat \<Rightarrow> jsnum list" where
  "trailing arr w i = drop (Suc i - w) (take (Suc i) arr)"

definition window_mean :: "jsnum list \<Rightarrow> nat \<Rightarrow> nat \<Rightarrow> jsnum" where
  "window_mean arr w i =
     (if length (trailing arr w i) = w \<and> list_all isFiniteNum (trailing arr w i)
      then Fin (sum_list (map the_fin (trailing arr w i)) / real w)
      else NaN)"

definition finite_or_NaN :: "jsnum \<Rightarrow> jsnum" where
  \<comment> \<open>what movingAvg pushes on its queue\<close>
  "finite_or_NaN v = (if isFiniteNum v then v else NaN)"

definition index_normalize :: "jsnum list \<Rightarrow> jsnum list" where
  \<comment> \<open>the branch normalize === "index" of processed, for one series\<close>
  "index_normalize arr =
     (let base = firstFinite arr
      in if isFiniteNum base
         then map (\<lambda>v. if isFiniteNum v then js_mul (js_div v base) (Fin 100) else NaN) arr
         else arr)"

definition minmax_normalize :: "jsnum list \<Rightarrow> jsnum list" where
  \<comment> \<open>the branch normalize === "minmax" of processed, for one series\<close>
  "minmax_normalize arr =
     (let mn = finiteMin arr; mx = finiteMax arr; rng = js_sub mx mn
      in map (\<lambda>v. if isFiniteNum v \<and> js_gt rng (Fin 0) then js_div (js_sub v mn) rng else NaN) arr)"

definition processed_series :: "row list \<Rightarrow> string \<Rightarrow> int \<Rightarrow> string \<Rightarrow> nat \<Rightarrow> jsnum list" where
  \<comment> \<open>seriesData[key] at the end of processed: cap, conversion, smoothing, normalization\<close>
  "processed_series rows key smooth normalize_mode cap =
     (let limited = (if 0 < cap then take cap rows else rows);
          s0 = map (\<lambda>r. toNum (getProp r key)) limited;
          s1 = (if 0 < smooth then movingAvg s0 smooth else s0)
      in if normalize_mode = ''index'' then index_normalize s1
         else if normalize_mode = ''minmax'' then minmax_normalize s1
         else s1)"

section \<open>CSV export\<close>

definition dquote :: char where
  "dquote = CHR 0x22"

definition newline :: char where
  "newline = CHR 0x0A"

definition needs_quotes :: "string \<Rightarrow> bool" where
  \<comment> \<open>the test of the regular expression: a double quote, a comma or a line feed\<close>
  "needs_quotes v = (\<exists>ch\<in>set v. ch = dquote \<or> ch = CHR '','' \<or> ch = newline)"

definition double_quotes :: "string \<Rightarrow> string" where
  \<comment> \<open>v.replace of every double quote by two\<close>
  "double_quotes v = concat (map (\<lambda>ch. if ch = dquote then [dquote, dquote] else [ch]) v)"

definition field_text :: "host \<Rightarrow> jsval \<Rightarrow> string" where
  \<comment> \<open>the constant v of csvSafe\<close>
  "field_text h s = (if s = Null \<or> s = Undefined then [] else String h s)"

definition csvSafe :: "host \<Rightarrow> jsval \<Rightarrow> string" where
  "csvSafe h s =
     (let v = field_text h s
      in if needs_quotes v then [dquote] @ double_quotes v @ [dquote] else v)"

fun join :: "string \<Rightarrow> string list \<Rightarrow> string" where
  "join sep [] = []"
| "join sep [l] = l"
| "join sep (l # l' # ls) = l @ sep @ join sep (l' # ls)"

text \<open>groupedAgg, as far as the exporter reads it: \<open>{data, groups}\<close>.\<close>

record grouped =
  data :: "row list"
  groups :: "string list"

text \<open>The records written by the three exporters: the header and one line per row.\<close>

definition agg_header :: "host \<Rightarrow> string \<Rightarrow> string" where
  "agg_header h metric = join '','' [''Category'', toUpperCase h metric]"

definition agg_line :: "host \<Rightarrow> bucket \<Rightarrow> string" where
  "agg_line h r = join '','' [csvSafe h (Str (name r)), csvSafe h (Num (val r))]"

definition grouped_header :: "string \<Rightarrow> grouped \<Rightarrow> string" where
  "grouped_header cat groupedAgg = join '','' (cat # groups groupedAgg)"

definition grouped_line :: "host \<Rightarrow> string \<Rightarrow> grouped \<Rightarrow> row \<Rightarrow> string" where
  "grouped_line h cat groupedAgg r =
     join '','' (csvSafe h (getProp r cat) # map (\<lambda>g. csvSafe h (getProp r g)) (groups groupedAgg))"

definition series_line :: "host \<Rightarrow> string \<Rightarrow> string list \<Rightarrow> row \<Rightarrow> string" where
  "series_line h x ys d = join '','' (csvSafe h (getProp d x) # map (\<lambda>k. csvSafe h (getProp d k)) ys)"

definition points_header :: "string \<Rightarrow> string \<Rightarrow> string \<Rightarrow> string \<Rightarrow> string" where
  "points_header x y z colorBy =
     join '','' ([x, y] @ (if z \<noteq> [] then [z] else []) @ (if colorBy \<noteq> [] then [colorBy] else []))"

definition points_line :: "host \<Rightarrow> string \<Rightarrow> string \<Rightarrow> string \<Rightarrow> string \<Rightarrow> point \<Rightarrow> string" where
  "points_line h x y z colorBy p =
     join '','' (map (csvSafe h)
       ([getProp (praw p) x, getProp (praw p) y]
        @ (if z \<noteq> [] then [getProp (praw p) z] else [])
        @ (if colorBy \<noteq> [] then [getProp (praw p) colorBy] else [])))"

definition exportCSV_Treatment ::
  "host \<Rightarrow> string \<Rightarrow> string \<Rightarrow> string \<Rightarrow> bucket list \<Rightarrow> grouped \<Rightarrow> string option" where
  \<comment> \<open>the text handed to downloadText; None when the function returns before\<close>
  "exportCSV_Treatment h cat metric groupBy agg groupedAgg =
     (if cat = [] then None
      else if groupBy = [] then
        Some (foldl (\<lambda>csv r. csv @ agg_line h r @ [newline])
                ([] @ agg_header h metric @ [newline]) agg)
      else
        Some (foldl (\<lambda>csv r. csv @ grouped_line h cat groupedAgg r @ [newline])
                ([] @ grouped_header cat groupedAgg @ [newline]) (data groupedAgg)))"

definition exportCSV_Performance :: "host \<Rightarrow> string \<Rightarrow> string list \<Rightarrow> row list \<Rightarrow> string option" where
  "exportCSV_Performance h x ys processed =
     (if processed = [] then None
      else
        let lines = foldl (\<lambda>ls d. ls @ [series_line h x ys d]) [join '','' (x # ys)] processed
        in Some (join [newline] lines))"

definition exportCSV_Factors :: "host \<Rightarrow> string \<Rightarrow> string \<Rightarrow> string \<Rightarrow> string \<Rightarrow> point list \<Rightarrow> string" where
  "exportCSV_Factors h x y z colorBy pts =
     (let lines = foldl (\<lambda>ls p. ls @ [points_line h x y z colorBy p]) [points_header x y z colorBy] pts
      in join [newline] lines)"

text \<open>
  The reader of an exported field is not part of the repository. Following the
  specification, it strips the enclosing double quotes of a quoted field and halves the
  doubled double quotes inside; any other field is taken as it is.
\<close>

fun undouble :: "string \<Rightarrow> string" where
  "undouble (a # b # cs) = (if a = dquote \<and> b = dquote then dquote # undouble cs else a # undouble (b # cs))"
| "undouble cs = cs"

definition csvUnquote :: "string \<Rightarrow> string" where
  "csvUnquote f =
     (if 2 \<le> length f \<and> hd f = dquote \<and> last f = dquote then undouble (butlast (tl f)) else f)"

section \<open>A host for evaluation\<close>

text \<open>
  An instance of the host functions, to run the model on concrete inputs: it prints
  natural numbers in decimal (the examples format no other number), compares strings by
  their first differing character code, and upper-cases the letters a to z.
\<close>

fun nat_digits :: "nat \<Rightarrow> nat \<Rightarrow> string" where
  "nat_digits 0 n = []"
| "nat_digits (Suc fuel) n =
     (if n < 10 then [''0123456789'' ! n] else nat_digits fuel (n div 10) @ [''0123456789'' ! (n mod 10)])"

fun compare_codes :: "string \<Rightarrow> string \<Rightarrow> int" where
  "compare_codes [] [] = 0"
| "compare_codes [] (b # bs) = - 1"
| "compare_codes (a # as) [] = 1"
| "compare_codes (a # as) (b # bs) =
     (if (of_char a :: nat) < of_char b then - 1
      else if (of_char b :: nat) < of_char a then 1
      else compare_codes as bs)"

definition upper_ascii :: "char \<Rightarrow> char" where
  "upper_ascii ch =
     (if ch \<in> set ''abcdefghijklmnopqrstuvwxyz''
      then ''ABCDEFGHIJKLMNOPQRSTUVWXYZ'' ! digit_in ''abcdefghijklmnopqrstuvwxyz'' ch else ch)"

definition plain_host :: host where
  "plain_host =
     \<lparr>numberToString = (\<lambda>a. nat_digits 20 (nat \<lfloor>a\<rfloor>)),
      localeCompare = compare_codes,
      toUpperCase = map upper_ascii\<rparr>"

section \<open>Properties of the column classification\<close>

lemma isNaN_iff: "isNaN n \<longleftrightarrow> n = NaN"
  by (cases n) simp_all

text \<open>
  C9, as the code has it. For a non-empty row set the two column lists partition the keys of
  the first row: a key is numeric when every row's value for it is the empty string or
  converts (by \<open>Number\<close>) to something other than NaN, and categorical otherwise. The
  conversion admits the infinities, \<open>null\<close>, booleans and blank strings, so "numeric" is
  wider than "parses as a finite number". A column of empty strings only is numeric; an
  empty row set has no columns of either kind; and for the rows
  \<open>[{a:"1",b:"x"},{a:"2",b:""}]\<close> column a is numeric and column b categorical.
\<close>

theorem classify_columns:
  "(rows \<noteq> [] \<longrightarrow>
      (numericCols (classify rows), catCols (classify rows)) =
        partition (\<lambda>k. \<forall>r\<in>set rows. getProp r k = Str [] \<or> Number (getProp r k) \<noteq> NaN)
          (Object_keys (hd rows)))
   \<and> (rows \<noteq> [] \<and> k \<in> set (Object_keys (hd rows)) \<and> (\<forall>r\<in>set rows. getProp r k = Str [])
        \<longrightarrow> k \<in> set (numericCols (classify rows)))
   \<and> classify [] = \<lparr>numericCols = [], catCols = []\<rparr>
   \<and> classify [[(''a'', Str ''1''), (''b'', Str ''x'')], [(''a'', Str ''2''), (''b'', Str [])]]
        = \<lparr>numericCols = [''a''], catCols = [''b'']\<rparr>"
proof (intro conjI impI)
  assume "rows \<noteq> []"
  then show "(numericCols (classify rows), catCols (classify rows)) =
        partition (\<lambda>k. \<forall>r\<in>set rows. getProp r k = Str [] \<or> Number (getProp r k) \<noteq> NaN)
          (Object_keys (hd rows))"
    by (auto simp add: classify_def Let_def list_all_iff isNaN_iff comp_def intro: filter_cong)
next
  assume "rows \<noteq> [] \<and> k \<in> set (Object_keys (hd rows)) \<and> (\<forall>r\<in>set rows. getProp r k = Str [])"
  then show "k \<in> set (numericCols (classify rows))"
    by (simp add: classify_def Let_def list_all_iff)
next
  show "classify [] = \<lparr>numericCols = [], catCols = []\<rparr>"
    by (simp add: classify_def)
next
  show "classify [[(''a'', Str ''1''), (''b'', Str ''x'')], [(''a'', Str ''2''), (''b'', Str [])]]
        = \<lparr>numericCols = [''a''], catCols = [''b'']\<rparr>"
    by code_simp
qed

text \<open>The theorem at a column of two empty strings.\<close>

theorem classify_columns_witness:
  "[[(''n'', Str [])], [(''n'', Str [])]] \<noteq> []
   \<and> ''n'' \<in> set (Object_keys (hd [[(''n'', Str [])], [(''n'', Str [])]]))
   \<and> list_all (\<lambda>r. getProp r ''n'' = Str []) [[(''n'', Str [])], [(''n'', Str [])]]
   \<and> ''n'' \<in> set (numericCols (classify [[(''n'', Str [])], [(''n'', Str [])]]))
   \<and> (numericCols (classify [[(''n'', Str [])], [(''n'', Str [])]]),
       catCols (classify [[(''n'', Str [])], [(''n'', Str [])]])) = ([''n''], [])"
  using classify_columns [of "[[(''n'', Str [])], [(''n'', Str [])]]" "''n''"]
  by (simp add: Object_keys_def getProp_def)

text \<open>
  A column holding the text \<open>Infinity\<close> is numeric, although its value is neither the
  empty string nor a finite number.
\<close>

theorem classify_finite_counterexample:
  "\<not> (''a'' \<in> set (numericCols (classify [[(''a'', Str ''Infinity'')]]))
      \<longleftrightarrow> list_all (\<lambda>r. getProp r ''a'' = Str [] \<or> isFiniteNum (Number (getProp r ''a'')))
            [[(''a'', Str ''Infinity'')]])"
  by code_simp

section \<open>Properties of the aggregation\<close>









text \<open>
  Without a limit the bucket names are the keys of the map, hence pairwise distinct, and
  every row's category is one of them. With a limit they stay distinct as long as no
  category is named Other.
\<close>

lemma keys_Map_set: "set (map fst (Map_set m k v)) = insert k (set (map fst m))"
proof (induction m)
  case Nil
  show ?case by simp
next
  case (Cons e m)
  obtain k' v' where e: "e = (k', v')" by (cases e)
  show ?case
  proof (cases "k' = k")
    case True
    with e show ?thesis by simp
  next
    case False
    with e Cons.IH show ?thesis by (simp add: insert_commute)
  qed
qed

lemma distinct_Map_set: "distinct (map fst m) \<Longrightarrow> distinct (map fst (Map_set m k v))"
proof (induction m)
  case Nil
  show ?case by simp
next
  case (Cons e m)
  obtain k' v' where e: "e = (k', v')" by (cases e)
  show ?case
  proof (cases "k' = k")
    case True
    with Cons.prems e show ?thesis by simp
  next
    case False
    have "k' \<notin> set (map fst (Map_set m k v))"
      using Cons.prems e False by (simp add: keys_Map_set del: set_map)
    with Cons e False show ?thesis by simp
  qed
qed

lemma agg_keys:
  "set (map fst (foldl (agg_step h cat metric) m rows))
     = set (map fst m) \<union> (\<lambda>r. safeCat h (getProp r cat)) ` set rows"
  by (induction rows arbitrary: m) (auto simp add: agg_step_def Let_def keys_Map_set simp del: set_map)

lemma agg_distinct:
  "distinct (map fst m) \<Longrightarrow> distinct (map fst (foldl (agg_step h cat metric) m rows))"
  by (induction rows arbitrary: m) (simp_all add: agg_step_def Let_def distinct_Map_set)

lemma set_sort_insert: "set (sort_insert cmp a bs) = insert a (set bs)"
  by (induction bs) auto

lemma distinct_sort_insert:
  "distinct (map f (sort_insert cmp a bs)) \<longleftrightarrow> f a \<notin> f ` set bs \<and> distinct (map f bs)"
  by (induction bs) (auto simp add: set_sort_insert)

lemma set_Array_sort: "set (Array_sort cmp xs) = set xs"
  by (induction xs) (simp_all add: Array_sort_def set_sort_insert)

lemma distinct_Array_sort: "distinct (map f (Array_sort cmp xs)) \<longleftrightarrow> distinct (map f xs)"
  by (induction xs) (simp_all add: Array_sort_def distinct_sort_insert set_Array_sort [unfolded Array_sort_def])

lemma name_of_entry: "name \<circ> (\<lambda>(k, v). \<lparr>name = k, val = v\<rparr>) = fst"
  by (auto simp add: fun_eq_iff)

lemma names_of_entries: "map name (map (\<lambda>(k, v). \<lparr>name = k, val = v\<rparr>) m) = map fst m"
  by (simp add: name_of_entry)

lemma baseAgg_unlimited_names:
  "distinct (map name (baseAgg h rows cat metric sortBy 0))"
  by (simp add: baseAgg_def Let_def distinct_Array_sort name_of_entry agg_distinct)

lemma baseAgg_unlimited_covers:
  assumes "cat \<noteq> []" and "r \<in> set rows"
  shows "safeCat h (getProp r cat) \<in> set (map name (baseAgg h rows cat metric sortBy 0))"
proof -
  have "set (map name (baseAgg h rows cat metric sortBy 0))
          = set (map fst (foldl (agg_step h cat metric) [] rows))"
    using assms(1)
    by (simp add: baseAgg_def Let_def set_Array_sort image_comp case_prod_unfold)
  then show ?thesis
    using assms(2) by (simp add: agg_keys del: set_map)
qed

lemma baseAgg_names_distinct:
  assumes "''Other'' \<notin> set (map name (baseAgg h rows cat metric sortBy 0))"
  shows "distinct (map name (baseAgg h rows cat metric sortBy topN))"
proof (cases "cat = []")
  case True
  then show ?thesis by (simp add: baseAgg_def)
next
  case False
  define es where "es = Array_sort (compareFn h sortBy)
      (map (\<lambda>(k, v). \<lparr>name = k, val = v\<rparr>) (foldl (agg_step h cat metric) [] rows))"
  have all: "baseAgg h rows cat metric sortBy 0 = es"
    using False by (simp add: baseAgg_def Let_def es_def)
  have d: "distinct (map name es)"
    using baseAgg_unlimited_names [of h rows cat metric sortBy] by (simp add: all)
  have o: "''Other'' \<notin> set (map name es)"
    using assms by (simp add: all)
  show ?thesis
  proof (cases "0 < topN \<and> topN < length es")
    case True
    have "set (take topN es) \<subseteq> set es" by (rule set_take_subset)
    then have "''Other'' \<notin> set (map name (take topN es))" using o by auto
    moreover have "distinct (map name (take topN es))"
      using d by (simp add: take_map [symmetric])
    moreover have "baseAgg h rows cat metric sortBy topN
        = take topN es @ [\<lparr>name = ''Other'', val = sum_value (drop topN es)\<rparr>]"
      using False True by (simp add: baseAgg_def Let_def es_def)
    ultimately show ?thesis by simp
  next
    case False
    then have "baseAgg h rows cat metric sortBy topN = es"
      using \<open>cat \<noteq> []\<close> by (auto simp add: baseAgg_def Let_def es_def)
    with d show ?thesis by simp
  qed
qed

text \<open>
  C2 asks for pairwise distinct bucket names, each row's category counted in exactly one
  bucket. The collapse appends a bucket named Other without looking for a category of that
  name among the kept ones: with the categories Other, Other, A, B, counted, sorted by
  value and limited to the top 1, the result holds two buckets named Other.
\<close>

theorem baseAgg_other_collision:
  "baseAgg plain_host
     [[(''c'', Str ''Other'')], [(''c'', Str ''Other'')], [(''c'', Str ''A'')], [(''c'', Str ''B'')]]
     ''c'' ''count'' ''value'' 1
   = [\<lparr>name = ''Other'', val = Fin 2\<rparr>, \<lparr>name = ''Other'', val = Fin 2\<rparr>]
   \<and> \<not> distinct (map name (baseAgg plain_host
     [[(''c'', Str ''Other'')], [(''c'', Str ''Other'')], [(''c'', Str ''A'')], [(''c'', Str ''B'')]]
     ''c'' ''count'' ''value'' 1))"
  by code_simp

section \<open>Properties of the scatter points\<close>

lemma num_truthy_iff: "num_truthy n \<longleftrightarrow> n \<noteq> NaN \<and> n \<noteq> Fin 0"
  by (cases n) simp_all

text \<open>
  C10. Every point built for the scatter view has a size z that is neither NaN nor 0: with
  no size column selected z is 1, and with a size column whose cell is missing, does not
  parse, or parses to 0, z is 1 as well.
\<close>

theorem basePoints_size:
  "\<forall>p\<in>set (basePoints h rows x y z colorBy).
     pz p \<noteq> NaN \<and> pz p \<noteq> Fin 0
     \<and> (z = [] \<longrightarrow> pz p = Fin 1)
     \<and> (z \<noteq> [] \<and> (toNum (getProp (praw p) z) = NaN \<or> toNum (getProp (praw p) z) = Fin 0)
          \<longrightarrow> pz p = Fin 1)
     \<and> (z \<noteq> [] \<and> getProp (praw p) z = Undefined \<longrightarrow> pz p = Fin 1)"
proof
  fix p
  assume "p \<in> set (basePoints h rows x y z colorBy)"
  then obtain r where
    z_of: "pz p = (if z \<noteq> [] then (let n = toNum (getProp r z) in if num_truthy n then n else Fin 1)
                   else Fin 1)"
    and raw_of: "praw p = r"
    by (auto simp add: basePoints_def split: if_splits)
  show "pz p \<noteq> NaN \<and> pz p \<noteq> Fin 0
     \<and> (z = [] \<longrightarrow> pz p = Fin 1)
     \<and> (z \<noteq> [] \<and> (toNum (getProp (praw p) z) = NaN \<or> toNum (getProp (praw p) z) = Fin 0)
          \<longrightarrow> pz p = Fin 1)
     \<and> (z \<noteq> [] \<and> getProp (praw p) z = Undefined \<longrightarrow> pz p = Fin 1)"
    unfolding z_of raw_of
    by (simp add: Let_def num_truthy_iff toNum_def)
qed

text \<open>The theorem at two rows whose size cells are the text 0 and \<open>null\<close>.\<close>

theorem basePoints_size_witness:
  "basePoints plain_host
       [[(''a'', Str ''1''), (''b'', Str ''2''), (''s'', Str ''0'')],
        [(''a'', Str ''3''), (''b'', Str ''4''), (''s'', Null)]] ''a'' ''b'' ''s'' [] \<noteq> []
   \<and> list_all (\<lambda>p. pz p = Fin 1) (basePoints plain_host
       [[(''a'', Str ''1''), (''b'', Str ''2''), (''s'', Str ''0'')],
        [(''a'', Str ''3''), (''b'', Str ''4''), (''s'', Null)]] ''a'' ''b'' ''s'' [])"
proof -
  let ?pts = "basePoints plain_host
       [[(''a'', Str ''1''), (''b'', Str ''2''), (''s'', Str ''0'')],
        [(''a'', Str ''3''), (''b'', Str ''4''), (''s'', Null)]] ''a'' ''b'' ''s'' []"
  have cells: "list_all (\<lambda>p. toNum (getProp (praw p) ''s'') = Fin 0) ?pts"
    by code_simp
  have ne: "?pts \<noteq> []"
    by code_simp
  show ?thesis
    using basePoints_size [of plain_host _ "''a''" "''b''" "''s''" "[]"] cells ne
    by (simp add: list_all_iff)
qed

section \<open>Properties of the CSV export\<close>

lemma undouble_other: "a \<noteq> dquote \<Longrightarrow> undouble (a # cs) = a # undouble cs"
  by (cases cs) simp_all

lemma undouble_double_quotes: "undouble (double_quotes v) = v"
  by (induction v) (simp_all add: double_quotes_def undouble_other)

lemma csvUnquote_wrapped: "csvUnquote ([dquote] @ double_quotes v @ [dquote]) = v"
  by (simp add: csvUnquote_def undouble_double_quotes butlast_append)

lemma plain_not_wrapped:
  assumes "\<not> needs_quotes v"
  shows "\<not> (2 \<le> length v \<and> hd v = dquote \<and> last v = dquote)"
proof
  assume w: "2 \<le> length v \<and> hd v = dquote \<and> last v = dquote"
  then have "v \<noteq> []" by auto
  then have "hd v \<in> set v" by simp
  with w have "dquote \<in> set v" by simp
  with assms show False by (auto simp add: needs_quotes_def)
qed

lemma csvUnquote_plain:
  assumes "\<not> needs_quotes v"
  shows "csvUnquote v = v"
proof -
  have "\<not> (2 \<le> length v \<and> hd v = dquote \<and> last v = dquote)"
    using assms by (rule plain_not_wrapped)
  then show ?thesis
    unfolding csvUnquote_def by (rule if_not_P)
qed

text \<open>
  C8. A field is the empty string for \<open>null\<close> and \<open>undefined\<close> and the value's
  string otherwise. It is written between double quotes, its double quotes doubled, exactly
  when it holds a comma, a double quote or a line feed, and written as it is otherwise.
  Un-quoting the written field gives the field back, and the field \<open>a,b"c\<close> is written
  \<open>"a,b""c"\<close>.
\<close>

theorem csvSafe_quoting:
  "(needs_quotes (field_text h s) \<longrightarrow>
       csvSafe h s = [dquote] @ double_quotes (field_text h s) @ [dquote])
   \<and> (\<not> needs_quotes (field_text h s) \<longrightarrow> csvSafe h s = field_text h s)
   \<and> ((2 \<le> length (csvSafe h s) \<and> hd (csvSafe h s) = dquote \<and> last (csvSafe h s) = dquote)
        \<longleftrightarrow> needs_quotes (field_text h s))
   \<and> csvSafe h Null = [] \<and> csvSafe h Undefined = []
   \<and> csvUnquote (csvSafe h s) = field_text h s
   \<and> csvUnquote (csvSafe h (Str t)) = t
   \<and> csvSafe h (Str (''a,b'' @ [dquote] @ ''c'')) = [dquote] @ ''a,b'' @ [dquote, dquote] @ ''c'' @ [dquote]"
proof -
  have q: "needs_quotes (field_text h s) \<Longrightarrow>
       csvSafe h s = [dquote] @ double_quotes (field_text h s) @ [dquote]"
    by (simp add: csvSafe_def field_text_def Let_def)
  have p: "\<not> needs_quotes (field_text h s) \<Longrightarrow> csvSafe h s = field_text h s"
    by (simp add: csvSafe_def field_text_def Let_def)
  have w: "(2 \<le> length (csvSafe h s) \<and> hd (csvSafe h s) = dquote \<and> last (csvSafe h s) = dquote)
        \<longleftrightarrow> needs_quotes (field_text h s)"
  proof (cases "needs_quotes (field_text h s)")
    case True
    then show ?thesis by (simp add: q)
  next
    case False
    then show ?thesis using plain_not_wrapped [of "field_text h s"] by (simp add: p)
  qed
  have n: "csvSafe h Null = [] \<and> csvSafe h Undefined = []"
    by (simp add: csvSafe_def field_text_def needs_quotes_def)
  have r: "csvUnquote (csvSafe h s) = field_text h s"
  proof (cases "needs_quotes (field_text h s)")
    case True
    then show ?thesis using csvUnquote_wrapped [of "field_text h s"] by (simp add: q)
  next
    case False
    then show ?thesis by (simp add: p csvUnquote_plain)
  qed
  have rt: "csvUnquote (csvSafe h (Str t)) = t" for t
  proof (cases "needs_quotes t")
    case True
    then show ?thesis using csvUnquote_wrapped [of t] by (simp add: csvSafe_def field_text_def)
  next
    case False
    then show ?thesis by (simp add: csvSafe_def field_text_def csvUnquote_plain)
  qed
  have e: "csvSafe h (Str (''a,b'' @ [dquote] @ ''c'')) = [dquote] @ ''a,b'' @ [dquote, dquote] @ ''c'' @ [dquote]"
    by (simp add: csvSafe_def field_text_def needs_quotes_def double_quotes_def dquote_def)
  from q p w n r rt e show ?thesis by blast
qed

text \<open>The theorem at a field with a comma and at a field without special characters.\<close>

theorem csvSafe_quoting_witness:
  "needs_quotes (''x,y'')
   \<and> csvSafe plain_host (Str ''x,y'') = [dquote] @ ''x,y'' @ [dquote]
   \<and> csvUnquote (csvSafe plain_host (Str ''x,y'')) = ''x,y''
   \<and> \<not> needs_quotes ''plain''
   \<and> csvSafe plain_host (Str ''plain'') = ''plain''"
proof -
  have a: "needs_quotes (''x,y'')" by (simp add: needs_quotes_def)
  have b: "\<not> needs_quotes ''plain''" by (simp add: needs_quotes_def dquote_def newline_def)
  have c: "double_quotes ''x,y'' = ''x,y''" by (simp add: double_quotes_def dquote_def)
  show ?thesis
    using csvSafe_quoting [of plain_host "Str ''x,y''" "''x,y''"]
          csvSafe_quoting [of plain_host "Str ''plain''" "''plain''"] a b c
    by (auto simp add: field_text_def)
qed

lemma foldl_append_lines:
  "foldl (\<lambda>csv r. csv @ f r @ [newline]) init rs = init @ concat (map (\<lambda>r. f r @ [newline]) rs)"
  by (induction rs arbitrary: init) simp_all

lemma foldl_push: "foldl (\<lambda>ls d. ls @ [f d]) init ds = init @ map f ds"
  by (induction ds arbitrary: init) simp_all

lemma join_newline: "join [newline] (l # ls) = l @ concat (map (\<lambda>r. newline # r) ls)"
  by (induction ls arbitrary: l) simp_all

text \<open>
  C7, as the code has it. The aggregation exporter (plain and grouped) ends every record,
  the header and each data row, with a line feed. The series and the points exporters put
  a line feed before every data row, that is between the records, and none after the last
  record. The series exporter writes nothing for an empty row set, the aggregation exporter
  nothing without a category column.
\<close>

theorem exportCSV_records:
  "(cat \<noteq> [] \<and> groupBy = [] \<longrightarrow>
      exportCSV_Treatment h cat metric groupBy agg groupedAgg =
        Some (concat (map (\<lambda>l. l @ [newline]) (agg_header h metric # map (agg_line h) agg))))
   \<and> (cat \<noteq> [] \<and> groupBy \<noteq> [] \<longrightarrow>
      exportCSV_Treatment h cat metric groupBy agg groupedAgg =
        Some (concat (map (\<lambda>l. l @ [newline])
                (grouped_header cat groupedAgg # map (grouped_line h cat groupedAgg) (data groupedAgg)))))
   \<and> (processed \<noteq> [] \<longrightarrow>
      exportCSV_Performance h x ys processed =
        Some (join '','' (x # ys) @ concat (map (\<lambda>l. newline # l) (map (series_line h x ys) processed))))
   \<and> exportCSV_Factors h x y z colorBy pts =
        points_header x y z colorBy
          @ concat (map (\<lambda>l. newline # l) (map (points_line h x y z colorBy) pts))"
  by (simp add: exportCSV_Treatment_def exportCSV_Performance_def exportCSV_Factors_def
        foldl_append_lines foldl_push join_newline comp_def)

text \<open>The theorem at one bucket, one grouped row and one series row.\<close>

theorem exportCSV_records_witness:
  "exportCSV_Treatment plain_host ''c'' ''count'' [] [\<lparr>name = ''A'', val = Fin 2\<rparr>] \<lparr>data = [], groups = []\<rparr>
     = Some (''Category,COUNT'' @ [newline] @ ''A,2'' @ [newline])
   \<and> exportCSV_Treatment plain_host ''c'' ''count'' ''g'' []
        \<lparr>data = [[(''c'', Str ''A''), (''u'', Num (Fin 1))]], groups = [''u'']\<rparr>
     = Some (''c,u'' @ [newline] @ ''A,1'' @ [newline])
   \<and> exportCSV_Performance plain_host ''t'' [''v''] [[(''t'', Str ''a''), (''v'', Num (Fin 1))]]
     = Some (''t,v'' @ [newline] @ ''a,1'')"
proof -
  have l1: "agg_header plain_host ''count'' = ''Category,COUNT''"
    by code_simp
  have l2: "agg_line plain_host \<lparr>name = ''A'', val = Fin 2\<rparr> = ''A,2''"
    by code_simp
  have l3: "grouped_header ''c'' \<lparr>data = [[(''c'', Str ''A''), (''u'', Num (Fin 1))]], groups = [''u'']\<rparr> = ''c,u''"
    by code_simp
  have l4: "grouped_line plain_host ''c'' \<lparr>data = [[(''c'', Str ''A''), (''u'', Num (Fin 1))]], groups = [''u'']\<rparr>
              [(''c'', Str ''A''), (''u'', Num (Fin 1))] = ''A,1''"
    by code_simp
  have l5: "series_line plain_host ''t'' [''v''] [(''t'', Str ''a''), (''v'', Num (Fin 1))] = ''a,1''"
    by code_simp
  show ?thesis
    using exportCSV_records [of "''c''" "[]" plain_host "''count''" "[\<lparr>name = ''A'', val = Fin 2\<rparr>]"
            "\<lparr>data = [], groups = []\<rparr>" "[[(''t'', Str ''a''), (''v'', Num (Fin 1))]]" "''t''" "[''v'']"]
          exportCSV_records [of "''c''" "''g''" plain_host "''count''" "[]"
            "\<lparr>data = [[(''c'', Str ''A''), (''u'', Num (Fin 1))]], groups = [''u'']\<rparr>" "[]"]
    by (simp add: l1 l2 l3 l4 l5)
qed

text \<open>
  The series and the points exporters do not end the last record with a line feed.
\<close>

theorem exportCSV_trailing_newline_counterexample:
  "exportCSV_Performance plain_host ''t'' [''v''] [[(''t'', Str ''a''), (''v'', Num (Fin 1))]]
     = Some (''t,v'' @ [newline] @ ''a,1'')
   \<and> exportCSV_Performance plain_host ''t'' [''v''] [[(''t'', Str ''a''), (''v'', Num (Fin 1))]]
     \<noteq> Some (''t,v'' @ [newline] @ ''a,1'' @ [newline])
   \<and> exportCSV_Factors plain_host ''a'' ''b'' [] []
        [\<lparr>px = Fin 1, py = Fin 2, pz = Fin 1, pc = ''All'', praw = [(''a'', Str ''1''), (''b'', Str ''2'')]\<rparr>]
     = ''a,b'' @ [newline] @ ''1,2''
   \<and> exportCSV_Factors plain_host ''a'' ''b'' [] []
        [\<lparr>px = Fin 1, py = Fin 2, pz = Fin 1, pc = ''All'', praw = [(''a'', Str ''1''), (''b'', Str ''2'')]\<rparr>]
     \<noteq> ''a,b'' @ [newline] @ ''1,2'' @ [newline]"
  by code_simp

section \<open>Properties of the linear statistics\<close>

lemma foldl_fin:
  "(\<And>p. p \<in> set ps \<Longrightarrow> F p = Fin (G p)) \<Longrightarrow>
     foldl (\<lambda>a p. js_add a (F p)) (Fin s) ps = Fin (s + sum_list (map G ps))"
proof (induction ps arbitrary: s)
  case Nil
  show ?case by simp
next
  case (Cons p ps)
  have "F p = Fin (G p)" using Cons.prems by simp
  moreover have "foldl (\<lambda>a p. js_add a (F p)) (Fin (s + G p)) ps = Fin (s + G p + sum_list (map G ps))"
    using Cons.prems by (intro Cons.IH) simp
  ultimately show ?case by (simp add: add.assoc)
qed















section \<open>Properties of the series transforms\<close>

lemma firstFinite_none: "(\<forall>v\<in>set arr. \<not> isFiniteNum v) \<Longrightarrow> firstFinite arr = NaN"
  by (induction arr) simp_all

lemma firstFinite_first:
  "(\<exists>v\<in>set arr. isFiniteNum v) \<Longrightarrow>
     \<exists>j<length arr. firstFinite arr = arr ! j \<and> isFiniteNum (arr ! j) \<and> (\<forall>k<j. \<not> isFiniteNum (arr ! k))"
proof (induction arr)
  case Nil
  then show ?case by simp
next
  case (Cons v vs)
  show ?case
  proof (cases "isFiniteNum v")
    case True
    then have "firstFinite (v # vs) = (v # vs) ! 0 \<and> isFiniteNum ((v # vs) ! 0)
                 \<and> (\<forall>k<0. \<not> isFiniteNum ((v # vs) ! k))"
      by simp
    then show ?thesis by blast
  next
    case False
    with Cons.prems have "\<exists>u\<in>set vs. isFiniteNum u" by auto
    then obtain j where j: "j < length vs" "firstFinite vs = vs ! j" "isFiniteNum (vs ! j)"
        "\<forall>k<j. \<not> isFiniteNum (vs ! k)"
      using Cons.IH by blast
    have "\<forall>k<Suc j. \<not> isFiniteNum ((v # vs) ! k)"
    proof (intro allI impI)
      fix k assume "k < Suc j"
      then show "\<not> isFiniteNum ((v # vs) ! k)"
        using False j(4) by (cases k) simp_all
    qed
    with j False have "Suc j < length (v # vs) \<and> firstFinite (v # vs) = (v # vs) ! Suc j
        \<and> isFiniteNum ((v # vs) ! Suc j) \<and> (\<forall>k<Suc j. \<not> isFiniteNum ((v # vs) ! k))"
      by simp
    then show ?thesis by blast
  qed
qed

text \<open>
  C6, as the code has it. When the series has a finite sample, the base is the first one,
  every finite sample becomes (sample / base) times 100 and every other sample NaN; for a
  base b other than zero a finite sample a becomes the number a / b * 100. When the series
  has no finite sample it is left as it is: its infinite samples stay infinite.
\<close>

theorem index_normalize_series:
  "((\<exists>v\<in>set arr. isFiniteNum v) \<longrightarrow>
      (\<exists>j<length arr. firstFinite arr = arr ! j \<and> isFiniteNum (arr ! j)
                        \<and> (\<forall>k<j. \<not> isFiniteNum (arr ! k)))
      \<and> index_normalize arr =
          map (\<lambda>v. if isFiniteNum v then js_mul (js_div v (firstFinite arr)) (Fin 100) else NaN) arr)
   \<and> (firstFinite arr = Fin b \<and> b \<noteq> 0 \<and> i < length arr \<and> arr ! i = Fin a \<longrightarrow>
        index_normalize arr ! i = Fin (a / b * 100))
   \<and> ((\<forall>v\<in>set arr. \<not> isFiniteNum v) \<longrightarrow> index_normalize arr = arr)"
proof (intro conjI impI)
  assume some: "\<exists>v\<in>set arr. isFiniteNum v"
  then show first: "\<exists>j<length arr. firstFinite arr = arr ! j \<and> isFiniteNum (arr ! j)
                        \<and> (\<forall>k<j. \<not> isFiniteNum (arr ! k))"
    by (rule firstFinite_first)
  then have "isFiniteNum (firstFinite arr)" by auto
  then show "index_normalize arr =
          map (\<lambda>v. if isFiniteNum v then js_mul (js_div v (firstFinite arr)) (Fin 100) else NaN) arr"
    by (simp add: index_normalize_def Let_def)
next
  assume a: "firstFinite arr = Fin b \<and> b \<noteq> 0 \<and> i < length arr \<and> arr ! i = Fin a"
  then show "index_normalize arr ! i = Fin (a / b * 100)"
    by (simp add: index_normalize_def Let_def isFiniteNum_def)
next
  assume "\<forall>v\<in>set arr. \<not> isFiniteNum v"
  then have "firstFinite arr = NaN" by (rule firstFinite_none)
  then show "index_normalize arr = arr"
    by (simp add: index_normalize_def Let_def isFiniteNum_def)
qed

text \<open>The theorem at a series with base 2 and at a series without a finite sample.\<close>

theorem index_normalize_series_witness:
  "index_normalize [NaN, Fin 2, Fin 4, PInf] = [NaN, Fin 100, Fin 200, NaN]
   \<and> index_normalize [NaN, Fin 2, Fin 4, PInf] ! 2 = Fin (4 / 2 * 100)
   \<and> index_normalize [NaN, NInf] = [NaN, NInf]"
proof -
  have f: "firstFinite [NaN, Fin 2, Fin 4, PInf] = Fin 2"
    by (simp add: isFiniteNum_def)
  show ?thesis
    using index_normalize_series [of "[NaN, Fin 2, Fin 4, PInf]" 2 2 4]
          index_normalize_series [of "[NaN, NInf]"]
    by (simp add: f isFiniteNum_def)
qed

text \<open>
  A series without a finite sample keeps its infinite samples: a column holding the text
  \<open>Infinity\<close> is normalized to an infinite sample, not to NaN.
\<close>

theorem index_normalize_infinite_counterexample:
  "list_all (\<lambda>v. \<not> isFiniteNum v) [PInf, NaN]
   \<and> index_normalize [PInf, NaN] = [PInf, NaN]
   \<and> index_normalize [PInf, NaN] \<noteq> [NaN, NaN]
   \<and> processed_series [[(''v'', Str ''Infinity'')]] ''v'' 0 ''index'' 500 = [PInf]"
  by code_simp

subsection \<open>The moving average\<close>

lemma filter_finite_or_NaN: "filter isFiniteNum (map finite_or_NaN xs) = filter isFiniteNum xs"
  by (induction xs) (simp_all add: finite_or_NaN_def isFiniteNum_def)

lemma length_filter_full:
  assumes "length xs \<le> w"
  shows "length (filter P xs) = w \<longleftrightarrow> length xs = w \<and> list_all P xs"
proof
  assume full: "length (filter P xs) = w"
  have le: "length (filter P xs) \<le> length xs" by (rule length_filter_le)
  with full assms have len: "length xs = w" by simp
  have "list_all P xs"
  proof (rule ccontr)
    assume "\<not> list_all P xs"
    then obtain x where "x \<in> set xs" "\<not> P x" by (auto simp add: list_all_iff)
    then have "length (filter P xs) < length xs" by (rule length_filter_less)
    with full len show False by simp
  qed
  with len show "length xs = w \<and> list_all P xs" by simp
next
  assume "length xs = w \<and> list_all P xs"
  then show "length (filter P xs) = w" by (simp add: list_all_iff)
qed

lemma foldl_add_finite:
  assumes "list_all isFiniteNum xs"
  shows "foldl js_add (Fin 0) xs = Fin (sum_list (map the_fin xs))"
proof -
  have "\<And>p. p \<in> set xs \<Longrightarrow> p = Fin (the_fin p)"
  proof -
    fix p assume "p \<in> set xs"
    with assms have "isFinite p" by (simp add: list_all_iff isFiniteNum_def)
    then show "p = Fin (the_fin p)" by (cases p) simp_all
  qed
  then have "foldl (\<lambda>a p. js_add a p) (Fin 0) xs = Fin (0 + sum_list (map the_fin xs))"
    by (rule foldl_fin)
  then show ?thesis by simp
qed

lemma length_trailing: "k < length arr \<Longrightarrow> length (trailing arr w k) = min (Suc k) w"
  by (simp add: trailing_def)

lemma movingAvg_step_state:
  assumes win: "2 \<le> win" and k: "k < length arr"
  shows "\<exists>s'. movingAvg_step arr win (s, map finite_or_NaN (drop (k - nat win) (take k arr)), out) k
          = (s', map finite_or_NaN (trailing arr (nat win) k), out[k := window_mean arr (nat win) k])"
proof -
  define w where "w = nat win"
  have ww: "win = int w" "2 \<le> w" using win by (simp_all add: w_def)
  define q where "q = map finite_or_NaN (drop (k - w) (take k arr))"
  define q1 where "q1 = q @ [finite_or_NaN (arr ! k)]"
  define q2 where "q2 = (if w < length q1 then tl q1 else q1)"
  define valid where "valid = filter isFiniteNum q2"
  define y where "y = (if length valid = w then js_div (foldl js_add (Fin 0) valid) (Fin (real w)) else NaN)"
  have step: "\<exists>s'. movingAvg_step arr win (s, q, out) k = (s', q2, out[k := y])"
    by (simp add: movingAvg_step_def Let_def q1_def q2_def valid_def y_def ww(1) finite_or_NaN_def)
  have take: "take (Suc k) arr = take k arr @ [arr ! k]"
    using k by (rule take_Suc_conv_app_nth)
  have q1_eq: "q1 = map finite_or_NaN (drop (k - w) (take (Suc k) arr))"
    using k by (simp add: q1_def q_def take)
  have len_q1: "length q1 = Suc (min k w)"
    using k by (simp add: q1_def q_def)
  have q2_eq: "q2 = map finite_or_NaN (trailing arr w k)"
  proof (cases "w \<le> k")
    case True
    then have "w < length q1" by (simp add: len_q1)
    then have "q2 = tl q1" by (simp add: q2_def)
    also have "\<dots> = map finite_or_NaN (drop (Suc (k - w)) (take (Suc k) arr))"
      by (simp add: q1_eq map_tl [symmetric] drop_Suc tl_drop)
    also have "Suc (k - w) = Suc k - w" using True by simp
    finally show ?thesis by (simp add: trailing_def)
  next
    case False
    then have "\<not> w < length q1" by (simp add: len_q1)
    then have "q2 = q1" by (simp add: q2_def)
    moreover have "k - w = Suc k - w" using False by simp
    ultimately show ?thesis by (simp add: q1_eq trailing_def)
  qed
  have valid_eq: "valid = filter isFiniteNum (trailing arr w k)"
    by (simp add: valid_def q2_eq filter_finite_or_NaN)
  have len_tr: "length (trailing arr w k) \<le> w"
    using k by (simp add: length_trailing)
  have y_eq: "y = window_mean arr w k"
  proof (cases "length (trailing arr w k) = w \<and> list_all isFiniteNum (trailing arr w k)")
    case True
    then have v: "valid = trailing arr w k"
      by (simp add: valid_eq list_all_iff)
    have "real w \<noteq> 0" using ww(2) by simp
    then show ?thesis
      using True by (simp add: y_def v window_mean_def foldl_add_finite)
  next
    case False
    then have "length valid \<noteq> w"
      using length_filter_full [OF len_tr, of isFiniteNum] by (simp add: valid_eq)
    then show ?thesis
      using False by (simp add: y_def window_mean_def)
  qed
  from step show ?thesis
    by (simp add: q_def q2_eq y_eq w_def)
qed

lemma movingAvg_loop_state:
  assumes win: "2 \<le> win"
  shows "k \<le> length arr \<Longrightarrow>
     \<exists>s. foldl (movingAvg_step arr win) (Fin 0, [], replicate (length arr) NaN) [0..<k]
          = (s, map finite_or_NaN (drop (k - nat win) (take k arr)),
             map (window_mean arr (nat win)) [0..<k] @ replicate (length arr - k) NaN)"
proof (induction k)
  case 0
  show ?case by simp
next
  case (Suc k)
  then have k: "k < length arr" by simp
  from Suc obtain s where
    IH: "foldl (movingAvg_step arr win) (Fin 0, [], replicate (length arr) NaN) [0..<k]
          = (s, map finite_or_NaN (drop (k - nat win) (take k arr)),
             map (window_mean arr (nat win)) [0..<k] @ replicate (length arr - k) NaN)"
    by auto
  let ?out = "map (window_mean arr (nat win)) [0..<k] @ replicate (length arr - k) NaN"
  obtain s' where
    st: "movingAvg_step arr win (s, map finite_or_NaN (drop (k - nat win) (take k arr)), ?out) k
          = (s', map finite_or_NaN (trailing arr (nat win) k), ?out[k := window_mean arr (nat win) k])"
    using movingAvg_step_state [OF win k] by blast
  have rep: "replicate (length arr - k) NaN = NaN # replicate (length arr - Suc k) NaN"
    using k by (simp add: Suc_diff_Suc replicate_Suc [symmetric] del: replicate_Suc)
  have out: "?out[k := window_mean arr (nat win) k]
               = map (window_mean arr (nat win)) [0..<Suc k] @ replicate (length arr - Suc k) NaN"
    by (simp add: rep list_update_append)
  have "foldl (movingAvg_step arr win) (Fin 0, [], replicate (length arr) NaN) [0..<Suc k]
          = (s', map finite_or_NaN (trailing arr (nat win) k),
             map (window_mean arr (nat win)) [0..<Suc k] @ replicate (length arr - Suc k) NaN)"
    using IH st out by simp
  then show ?case
    by (auto simp add: trailing_def)
qed

lemma movingAvg_windows:
  assumes "2 \<le> win"
  shows "movingAvg arr win = map (window_mean arr (nat win)) [0..<length arr]"
proof -
  obtain s where
    "foldl (movingAvg_step arr win) (Fin 0, [], replicate (length arr) NaN) [0..<length arr]
       = (s, map finite_or_NaN (drop (length arr - nat win) (take (length arr) arr)),
          map (window_mean arr (nat win)) [0..<length arr] @ replicate (length arr - length arr) NaN)"
    using movingAvg_loop_state [OF assms, of "length arr" arr] by blast
  then show ?thesis
    using assms by (simp add: movingAvg_def Let_def)
qed

lemma trailing_nth:
  assumes "w \<le> Suc i" "i < length arr"
  shows "trailing arr w i = map (\<lambda>j. arr ! j) [Suc i - w..<Suc i]"
proof (rule nth_equalityI)
  show "length (trailing arr w i) = length (map (\<lambda>j. arr ! j) [Suc i - w..<Suc i])"
    using assms by (simp add: length_trailing del: upt_Suc)
next
  fix n
  assume "n < length (trailing arr w i)"
  then have n: "n < w" using assms by (simp add: length_trailing)
  then have "Suc i - w + n < Suc i" using assms by arith
  then show "trailing arr w i ! n = map (\<lambda>j. arr ! j) [Suc i - w..<Suc i] ! n"
    using assms n by (simp add: trailing_def del: upt_Suc)
qed

text \<open>
  C3. A window of at most 1 returns the series as it is. For a window w of at least 2 the
  result has the length of the series, and its sample at index i is the mean of the w
  samples at the indices i + 1 - w to i when there are w such samples and all of them are
  finite, and NaN otherwise. Window 3 over \<open>[1,2,3,4,5]\<close> gives
  \<open>[NaN, NaN, 2, 3, 4]\<close>.
\<close>

theorem movingAvg_trailing_mean:
  "(win \<le> 1 \<longrightarrow> movingAvg arr win = arr)
   \<and> (2 \<le> win \<longrightarrow> length (movingAvg arr win) = length arr)
   \<and> (2 \<le> win \<and> i < length arr \<longrightarrow>
        movingAvg arr win ! i =
          (if nat win \<le> Suc i \<and> (\<forall>j\<in>{Suc i - nat win..i}. isFiniteNum (arr ! j))
           then Fin ((\<Sum>j = Suc i - nat win..i. the_fin (arr ! j)) / real_of_int win)
           else NaN))
   \<and> movingAvg [Fin 1, Fin 2, Fin 3, Fin 4, Fin 5] 3 = [NaN, NaN, Fin 2, Fin 3, Fin 4]"
proof (intro conjI impI)
  assume "win \<le> 1"
  then show "movingAvg arr win = arr" by (simp add: movingAvg_def)
next
  assume "2 \<le> win"
  then show "length (movingAvg arr win) = length arr" by (simp add: movingAvg_windows)
next
  assume a: "2 \<le> win \<and> i < length arr"
  define w where "w = nat win"
  have ww: "real_of_int win = real w" "2 \<le> w" using a by (auto simp add: w_def)
  have nth: "movingAvg arr win ! i = window_mean arr w i"
    using a by (simp add: movingAvg_windows w_def)
  have len: "length (trailing arr w i) = w \<longleftrightarrow> w \<le> Suc i"
    using a by (auto simp add: length_trailing)
  show "movingAvg arr win ! i =
          (if nat win \<le> Suc i \<and> (\<forall>j\<in>{Suc i - nat win..i}. isFiniteNum (arr ! j))
           then Fin ((\<Sum>j = Suc i - nat win..i. the_fin (arr ! j)) / real_of_int win)
           else NaN)"
  proof (cases "w \<le> Suc i")
    case True
    then have tr: "trailing arr w i = map (\<lambda>j. arr ! j) [Suc i - w..<Suc i]"
      using a by (intro trailing_nth) simp_all
    have set_eq: "set [Suc i - w..<Suc i] = {Suc i - w..i}" by auto
    have all: "list_all isFiniteNum (trailing arr w i) \<longleftrightarrow> (\<forall>j\<in>{Suc i - w..i}. isFiniteNum (arr ! j))"
      unfolding tr list_all_iff set_map set_eq by blast
    have "sum_list (map the_fin (trailing arr w i)) = sum_list (map (\<lambda>j. the_fin (arr ! j)) [Suc i - w..<Suc i])"
      by (simp add: tr comp_def)
    also have "\<dots> = (\<Sum>j = Suc i - w..<Suc i. the_fin (arr ! j))"
      by (simp add: interv_sum_list_conv_sum_set_nat del: upt_Suc)
    also have "{Suc i - w..<Suc i} = {Suc i - w..i}" by auto
    finally have sm: "sum_list (map the_fin (trailing arr w i)) = (\<Sum>j = Suc i - w..i. the_fin (arr ! j))" .
    show ?thesis
      using True len by (simp add: nth window_mean_def all sm ww(1) w_def [symmetric])
  next
    case False
    then show ?thesis
      using len by (simp add: nth window_mean_def w_def [symmetric])
  qed
next
  have "movingAvg [Fin 1, Fin 2, Fin 3, Fin 4, Fin 5] 3
          = map (window_mean [Fin 1, Fin 2, Fin 3, Fin 4, Fin 5] (nat 3)) [0..<length [Fin 1, Fin 2, Fin 3, Fin 4, Fin 5]]"
    by (rule movingAvg_windows) simp
  also have "\<dots> = [NaN, NaN, Fin 2, Fin 3, Fin 4]"
    by (simp add: window_mean_def trailing_def isFiniteNum_def upt_rec numeral_eq_Suc)
  finally show "movingAvg [Fin 1, Fin 2, Fin 3, Fin 4, Fin 5] 3 = [NaN, NaN, Fin 2, Fin 3, Fin 4]" .
qed

text \<open>The theorem at window 1, and at window 2 over a series with a gap.\<close>

theorem movingAvg_trailing_mean_witness:
  "movingAvg [Fin 4, NaN] 1 = [Fin 4, NaN]
   \<and> length (movingAvg [Fin 1, NaN, Fin 3, Fin 5] 2) = 4
   \<and> movingAvg [Fin 1, NaN, Fin 3, Fin 5] 2 ! 3 = Fin 4
   \<and> movingAvg [Fin 1, NaN, Fin 3, Fin 5] 2 ! 2 = NaN"
proof -
  let ?arr = "[Fin 1, NaN, Fin 3, Fin 5]"
  have s3: "{Suc 3 - nat 2..3} = {2, 3}" by auto
  have s2: "{Suc 2 - nat 2..2} = {1, 2}" by auto
  have full: "nat 2 \<le> Suc 3 \<and> (\<forall>j\<in>{Suc 3 - nat 2..3}. isFiniteNum (?arr ! j))"
    unfolding s3 by (simp add: isFiniteNum_def)
  have total: "(\<Sum>j = Suc 3 - nat 2..3. the_fin (?arr ! j)) = 8"
    unfolding s3 by simp
  have gap: "\<not> (nat 2 \<le> Suc 2 \<and> (\<forall>j\<in>{Suc 2 - nat 2..2}. isFiniteNum (?arr ! j)))"
    unfolding s2 by (simp add: isFiniteNum_def)
  have pre3: "(2::int) \<le> 2 \<and> 3 < length ?arr" by simp
  have pre2: "(2::int) \<le> 2 \<and> 2 < length ?arr" by simp
  note at3 = movingAvg_trailing_mean [of 2 ?arr 3, THEN conjunct2, THEN conjunct2, THEN conjunct1,
      THEN mp, OF pre3, unfolded if_P [OF full] total]
  note at2 = movingAvg_trailing_mean [of 2 ?arr 2, THEN conjunct2, THEN conjunct2, THEN conjunct1,
      THEN mp, OF pre2, unfolded if_not_P [OF gap]]
  note len = movingAvg_trailing_mean [of 2 ?arr 0, THEN conjunct2, THEN conjunct1, THEN mp]
  note pass = movingAvg_trailing_mean [of 1 "[Fin 4, NaN]" 0, THEN conjunct1, THEN mp]
  from at3 at2 len pass show ?thesis by simp
qed

end
